theory Spec2Isabelle
  imports Main "HOL-Library.AList" "HOL-Library.Char_ord" "HOL-Library.List_Lexorder"
begin

section \<open>The vocabulary of \<^verbatim>\<open>data_utils/vocab.py\<close>\<close>

text \<open>
  A shallow embedding of the class \<^verbatim>\<open>Vocab\<close>: its constructor with
  \<^verbatim>\<open>make_vocab\<close>, \<^verbatim>\<open>encode_caption\<close>, \<^verbatim>\<open>decode_caption\<close> and
  \<^verbatim>\<open>extend\<close>. Exceptions are values of \<open>error + 'a\<close>. A Python \<^verbatim>\<open>dict\<close> is an
  association list in insertion order whose keys are distinct; \<open>AList.update\<close> is the
  assignment \<^verbatim>\<open>d[k] = v\<close> (an existing key keeps its place, a new key goes to the end).
  Token strings are \<open>string\<close>, compared lexicographically by character code as Python
  compares \<^verbatim>\<open>str\<close>; the characters of the model are the code points below 256.
  Indices are Python integers, \<open>int\<close>; the entries of the \<^verbatim>\<open>long\<close> tensor built by
  \<^verbatim>\<open>encode_caption\<close> are taken to fit its 64 bits.
\<close>

subsection \<open>Data\<close>

datatype error = AttributeError | KeyError | IndexError

type_synonym token = string

text \<open>What \<^verbatim>\<open>AutoTokenizer.from_pretrained\<close> hands back, as far as the constructor
  reads it: the four special tokens (\<^verbatim>\<open>None\<close> where the tokenizer has none) and the
  dictionary of \<^verbatim>\<open>get_vocab()\<close>.\<close>

record token_encoder =
  pad_token :: "token option"
  enc_bos_token :: "token option"
  enc_eos_token :: "token option"
  enc_unk_token :: "token option"
  get_vocab :: "(token \<times> int) list"

text \<open>The arguments of \<^verbatim>\<open>Vocab.__init__\<close>. \<open>json_dirs\<close> holds, for each annotation
  file, the caption strings of its annotations in order; \<open>preprocess_caption\<close> is the
  tokenizer of \<^verbatim>\<open>data_utils.utils\<close> with the tokenizer name already applied;
  \<open>pretrained_language_model\<close> is the tokenizer loaded for
  \<^verbatim>\<open>pretrained_language_model_name\<close>, or \<open>None\<close>. The argument \<^verbatim>\<open>vectors\<close> is
  \<^verbatim>\<open>None\<close> throughout.\<close>

record init_args =
  json_dirs :: "string list list"
  preprocess_caption :: "string \<Rightarrow> token list"
  max_size :: "int option"
  min_freq :: int
  arg_bos_token :: token
  arg_eos_token :: token
  arg_padding_token :: token
  arg_unk_token :: token
  pretrained_language_model :: "token_encoder option"

record vocab =
  freqs :: "(token \<times> int) list"
  max_caption_length :: nat
  padding_token :: token
  bos_token :: token
  eos_token :: token
  unk_token :: token
  itos :: "(int \<times> token) list"
  stoi :: "(token \<times> int) list"
  padding_idx :: int
  bos_idx :: int
  eos_idx :: int
  unk_idx :: int
  specials :: "token list"

subsection \<open>Dictionaries and counters\<close>

text \<open>A dictionary comprehension \<^verbatim>\<open>{k: v for ...}\<close>: the pairs are assigned in order,
  so a later pair with the same key overwrites the value.\<close>

definition dict_of :: "('k \<times> 'v) list \<Rightarrow> ('k \<times> 'v) list" where
  "dict_of kvs = fold (\<lambda>(k, v) d. AList.update k v d) kvs []"

text \<open>\<^verbatim>\<open>Counter.__getitem__\<close>: a missing key counts 0.\<close>

definition counter_get :: "(token \<times> int) list \<Rightarrow> token \<Rightarrow> int" where
  "counter_get c elem = (case map_of c elem of None \<Rightarrow> 0 | Some n \<Rightarrow> n)"

text \<open>\<^verbatim>\<open>Counter.update(iterable)\<close>: each element adds one to its count.\<close>

definition counter_update :: "(token \<times> int) list \<Rightarrow> token list \<Rightarrow> (token \<times> int) list" where
  "counter_update c elems = fold (\<lambda>elem c'. AList.update elem (counter_get c' elem + 1) c') elems c"

text \<open>\<^verbatim>\<open>enumerate\<close>.\<close>

definition enumerate_int :: "'a list \<Rightarrow> (int \<times> 'a) list" where
  "enumerate_int xs = zip (map int [0..<length xs]) xs"

subsection \<open>\<^verbatim>\<open>make_vocab\<close>\<close>

text \<open>One annotation: the caption is tokenized, counted, and the longest length plus 2
  is kept. The state is the pair of \<^verbatim>\<open>self.freqs\<close> and \<^verbatim>\<open>self.max_caption_length\<close>.\<close>

definition make_vocab_ann ::
  "(string \<Rightarrow> token list) \<Rightarrow> string \<Rightarrow> (token \<times> int) list \<times> nat \<Rightarrow> (token \<times> int) list \<times> nat" where
  "make_vocab_ann pre ann st =
     (let caption = pre ann
      in (counter_update (fst st) caption,
          if length caption + 2 > snd st then length caption + 2 else snd st))"

definition make_vocab ::
  "(string \<Rightarrow> token list) \<Rightarrow> string list list \<Rightarrow> (token \<times> int) list \<times> nat" where
  "make_vocab pre dirs = fold (\<lambda>json_data st. fold (make_vocab_ann pre) json_data st) dirs ([], 0)"

subsection \<open>\<^verbatim>\<open>__init__\<close>\<close>

text \<open>Line 45, \<^verbatim>\<open>max_size = None if max_size is None else max_size + len(self.itos)\<close>.
  The first argument is the attribute \<^verbatim>\<open>self.itos\<close> at that moment, \<open>None\<close> while it
  has not been assigned: reading it then raises \<^verbatim>\<open>AttributeError\<close>.\<close>

definition cap_max_size :: "(int \<times> token) list option \<Rightarrow> int option \<Rightarrow> error + int option" where
  "cap_max_size self_itos ms =
     (case ms of
        None \<Rightarrow> Inr None
      | Some m \<Rightarrow>
          (case self_itos of
             None \<Rightarrow> Inl AttributeError
           | Some its \<Rightarrow> Inr (Some (m + int (length its)))))"

text \<open>\<^verbatim>\<open>list.sort(key=..., reverse=True)\<close> is stable: the list is reversed, sorted
  stably in ascending order and reversed again, so equal keys keep their order.\<close>

definition sort_reverse :: "('a \<Rightarrow> 'k::linorder) \<Rightarrow> 'a list \<Rightarrow> 'a list" where
  "sort_reverse f xs = rev (sort_key f (rev xs))"

text \<open>Lines 53 and 54.\<close>

definition words_and_frequencies :: "(token \<times> int) list \<Rightarrow> (token \<times> int) list" where
  "words_and_frequencies counter = sort_reverse snd (sort_key fst counter)"

text \<open>The loop of lines 81 to 84; \<open>ms\<close> is the capped \<^verbatim>\<open>max_size\<close>, and
  \<^verbatim>\<open>len(itos) == None\<close> is false.\<close>

fun append_words :: "int \<Rightarrow> int option \<Rightarrow> token list \<Rightarrow> (token \<times> int) list \<Rightarrow> token list" where
  "append_words mf ms its [] = its"
| "append_words mf ms its ((word, freq) # rest) =
     (if freq < mf \<or> Some (int (length its)) = ms then its
      else append_words mf ms (its @ [word]) rest)"

text \<open>\<^verbatim>\<open>self.stoi[tok]\<close> for a special token: \<^verbatim>\<open>KeyError\<close> when the token is missing
  (\<^verbatim>\<open>None\<close> is never a key). The token is returned with its index.\<close>

definition stoi_item :: "(token \<times> int) list \<Rightarrow> token option \<Rightarrow> error + token \<times> int" where
  "stoi_item d tok =
     (case tok of
        None \<Rightarrow> Inl KeyError
      | Some t \<Rightarrow> (case map_of d t of None \<Rightarrow> Inl KeyError | Some i \<Rightarrow> Inr (t, i)))"

text \<open>Lines 91 to 96: the four indices are looked up in order, then the object is
  complete.\<close>

definition init_indices ::
  "(token \<times> int) list \<Rightarrow> nat \<Rightarrow> (int \<times> token) list \<Rightarrow> (token \<times> int) list \<Rightarrow>
   token option \<Rightarrow> token option \<Rightarrow> token option \<Rightarrow> token option \<Rightarrow> error + vocab" where
  "init_indices fr mcl its sti pad bos eos unk =
     (case stoi_item sti pad of Inl e \<Rightarrow> Inl e | Inr p \<Rightarrow>
      case stoi_item sti bos of Inl e \<Rightarrow> Inl e | Inr b \<Rightarrow>
      case stoi_item sti eos of Inl e \<Rightarrow> Inl e | Inr e \<Rightarrow>
      case stoi_item sti unk of Inl e \<Rightarrow> Inl e | Inr u \<Rightarrow>
        Inr \<lparr> freqs = fr, max_caption_length = mcl,
              padding_token = fst p, bos_token = fst b, eos_token = fst e, unk_token = fst u,
              itos = its, stoi = sti,
              padding_idx = snd p, bos_idx = snd b, eos_idx = snd e, unk_idx = snd u,
              specials = [fst p, fst b, fst e, fst u] \<rparr>)"

text \<open>Lines 74 to 84: the list \<^verbatim>\<open>itos\<close>, the four special tokens followed by the
  words the loop appends.\<close>

definition build_itos :: "init_args \<Rightarrow> int option \<Rightarrow> (token \<times> int) list \<Rightarrow> token list" where
  "build_itos a ms counter =
     append_words (max (min_freq a) 1) ms
       [arg_padding_token a, arg_bos_token a, arg_eos_token a, arg_unk_token a]
       (words_and_frequencies counter)"

text \<open>The constructor. The deletions of line 79 act on the copy \<^verbatim>\<open>counter\<close> after
  \<^verbatim>\<open>words_and_frequencies\<close> has been computed from it, and \<^verbatim>\<open>counter\<close> is not read
  again: they change nothing that is used later. \<^verbatim>\<open>self.freqs\<close> is never changed
  after \<^verbatim>\<open>make_vocab\<close>.\<close>

definition Vocab_init :: "init_args \<Rightarrow> error + vocab" where
  "Vocab_init a =
     (case cap_max_size None (max_size a) of
        Inl e \<Rightarrow> Inl e
      | Inr ms \<Rightarrow>
          (let st = make_vocab (preprocess_caption a) (json_dirs a);
               counter = fst st
           in case pretrained_language_model a of
                Some enc \<Rightarrow>
                  (let sti = get_vocab enc;
                       its = dict_of (map (\<lambda>(tok, i). (i, tok)) sti)
                   in init_indices (fst st) (snd st) its sti
                        (pad_token enc) (enc_bos_token enc) (enc_eos_token enc) (enc_unk_token enc))
              | None \<Rightarrow>
                  (let its = dict_of (enumerate_int (build_itos a ms counter));
                       sti = dict_of (map (\<lambda>(i, tok). (tok, i)) its)
                   in init_indices (fst st) (snd st) its sti
                        (Some (arg_padding_token a)) (Some (arg_bos_token a))
                        (Some (arg_eos_token a)) (Some (arg_unk_token a)))))"

subsection \<open>\<^verbatim>\<open>encode_caption\<close>\<close>

text \<open>\<^verbatim>\<open>self.stoi[token] if token in self.stoi else self.unk_idx\<close>.\<close>

definition stoi_or_unk :: "vocab \<Rightarrow> token \<Rightarrow> int" where
  "stoi_or_unk v tok = (case map_of (stoi v) tok of Some j \<Rightarrow> j | None \<Rightarrow> unk_idx v)"

text \<open>The assignment \<^verbatim>\<open>vec[i] = ...\<close> on a tensor of fixed length raises
  \<^verbatim>\<open>IndexError\<close> when \<open>i\<close> is not below the length.\<close>

fun encode_loop :: "vocab \<Rightarrow> int list \<Rightarrow> nat \<Rightarrow> token list \<Rightarrow> error + int list" where
  "encode_loop v vec i [] = Inr vec"
| "encode_loop v vec i (tok # rest) =
     (if i < length vec then encode_loop v (vec[i := stoi_or_unk v tok]) (Suc i) rest
      else Inl IndexError)"

definition encode_caption :: "vocab \<Rightarrow> token list \<Rightarrow> error + int list" where
  "encode_caption v caption =
     encode_loop v (replicate (max_caption_length v) (padding_idx v)) 0
       ([bos_token v] @ caption @ [eos_token v])"

subsection \<open>\<^verbatim>\<open>decode_caption\<close>\<close>

text \<open>\<^verbatim>\<open>str.isspace\<close> on the code points below 256.\<close>

definition is_space :: "char \<Rightarrow> bool" where
  "is_space c = (of_char c \<in> {9, 10, 11, 12, 13, 28, 29, 30, 31, 32, 133, 160 :: nat})"

text \<open>\<^verbatim>\<open>" ".join(words)\<close>.\<close>

fun join_words_space :: "string list \<Rightarrow> string" where
  "join_words_space [] = []"
| "join_words_space [w] = w"
| "join_words_space (w # ws) = w @ '' '' @ join_words_space ws"

text \<open>\<^verbatim>\<open>str.strip()\<close>.\<close>

definition str_strip :: "string \<Rightarrow> string" where
  "str_strip s = rev (dropWhile is_space (rev (dropWhile is_space s)))"

text \<open>\<^verbatim>\<open>str.split()\<close>: the maximal runs of characters that are not white space;
  \<open>cur\<close> is the run being read.\<close>

fun split_from :: "string \<Rightarrow> string \<Rightarrow> string list" where
  "split_from cur [] = (if cur = [] then [] else [cur])"
| "split_from cur (c # cs) =
     (if is_space c then (if cur = [] then split_from [] cs else cur # split_from [] cs)
      else split_from (cur @ [c]) cs)"

definition str_split :: "string \<Rightarrow> string list" where
  "str_split s = split_from [] s"

text \<open>The inner loop over one row; \<open>words\<close> is the list built so far. A missing index
  raises \<^verbatim>\<open>KeyError\<close> in \<^verbatim>\<open>self.itos[idx]\<close>.\<close>

fun decode_row :: "vocab \<Rightarrow> int list \<Rightarrow> token list \<Rightarrow> error + token list" where
  "decode_row v [] words = Inr words"
| "decode_row v (idx # rest) words =
     (case map_of (itos v) idx of
        None \<Rightarrow> Inl KeyError
      | Some tok \<Rightarrow>
          (let words' = (if tok \<notin> set (specials v) then words @ [tok] else words)
           in if idx = eos_idx v then Inr words' else decode_row v rest words'))"

text \<open>One entry of the result: a joined string, or a token list.\<close>

datatype decoded = Joined string | Tokens "string list"

fun decode_rows :: "vocab \<Rightarrow> int list list \<Rightarrow> bool \<Rightarrow> decoded list \<Rightarrow> error + decoded list" where
  "decode_rows v [] join_words captions = Inr captions"
| "decode_rows v (vec # vecs) join_words captions =
     (case decode_row v vec [] of
        Inl e \<Rightarrow> Inl e
      | Inr words \<Rightarrow>
          (let caption = join_words_space words
           in decode_rows v vecs join_words
                (captions @ [if join_words then Joined caption else Tokens (str_split (str_strip caption))])))"

definition decode_caption :: "vocab \<Rightarrow> int list list \<Rightarrow> bool \<Rightarrow> error + decoded list" where
  "decode_caption v caption_vecs join_words = decode_rows v caption_vecs join_words []"

subsection \<open>\<^verbatim>\<open>extend\<close>\<close>

text \<open>Iterating the dictionary \<^verbatim>\<open>v.itos\<close> (or \<^verbatim>\<open>sorted(v.itos)\<close>) yields its keys, which
  are integers, while the keys of \<^verbatim>\<open>self.stoi\<close> are strings: the values met by the
  loop are of two Python types.\<close>

datatype pyobj = PyStr string | PyInt int

text \<open>\<^verbatim>\<open>w in self.stoi\<close>: an integer equals no string.\<close>

fun key_in :: "pyobj \<Rightarrow> (token \<times> int) list \<Rightarrow> bool" where
  "key_in (PyStr s) d = (s \<in> fst ` set d)"
| "key_in (PyInt i) d = False"

text \<open>The loop of lines 157 to 160. \<^verbatim>\<open>self.itos\<close> is a dictionary, which has no
  \<^verbatim>\<open>append\<close>: the first word that is not a key of \<^verbatim>\<open>self.stoi\<close> raises
  \<^verbatim>\<open>AttributeError\<close> before anything is changed.\<close>

fun extend_loop :: "vocab \<Rightarrow> pyobj list \<Rightarrow> error + vocab" where
  "extend_loop self [] = Inr self"
| "extend_loop self (w # words) =
     (if \<not> key_in w (stoi self) then Inl AttributeError else extend_loop self words)"

definition extend :: "vocab \<Rightarrow> vocab \<Rightarrow> bool \<Rightarrow> error + vocab" where
  "extend self v srt =
     extend_loop self
       (map PyInt (if srt then sort_key (\<lambda>k. k) (map fst (itos v)) else map fst (itos v)))"

subsection \<open>Notions used in the statements\<close>

text \<open>All tokens of all captions of all annotation files, in the order \<^verbatim>\<open>make_vocab\<close>
  reads them.\<close>

definition caption_tokens :: "init_args \<Rightarrow> token list" where
  "caption_tokens a = concat (map (preprocess_caption a) (concat (json_dirs a)))"

text \<open>What is assumed of a pretrained tokenizer: its dictionary has each token once, and
  no two tokens share an index. Nothing is assumed without a pretrained tokenizer.\<close>

definition encoder_ok :: "init_args \<Rightarrow> bool" where
  "encoder_ok a =
     (case pretrained_language_model a of
        None \<Rightarrow> True
      | Some enc \<Rightarrow> distinct (map fst (get_vocab enc)) \<and> distinct (map snd (get_vocab enc)))"

text \<open>Arguments under which no token can enter \<^verbatim>\<open>itos\<close> twice: without a pretrained
  tokenizer the four special tokens are pairwise distinct and none of them is a token of
  a caption; with one, the assumption above.\<close>

definition clean_inputs :: "init_args \<Rightarrow> bool" where
  "clean_inputs a =
     (case pretrained_language_model a of
        None \<Rightarrow>
          distinct [arg_padding_token a, arg_bos_token a, arg_eos_token a, arg_unk_token a] \<and>
          list_all (\<lambda>t. t \<notin> set (caption_tokens a))
            [arg_padding_token a, arg_bos_token a, arg_eos_token a, arg_unk_token a]
      | Some enc \<Rightarrow> distinct (map fst (get_vocab enc)) \<and> distinct (map snd (get_vocab enc)))"

text \<open>A token that \<^verbatim>\<open>str.split()\<close> gives back whole: not empty, no white space.\<close>

definition plain_token :: "token \<Rightarrow> bool" where
  "plain_token w = (w \<noteq> [] \<and> list_all (\<lambda>c. \<not> is_space c) w)"



subsection \<open>Concrete inputs\<close>

text \<open>The scenario of the specification: two captions, split at white space, default
  special tokens, no size cap, no pretrained model.\<close>

definition args_dogs :: init_args where
  "args_dogs =
     \<lparr> json_dirs = [[''a dog runs'', ''a cat runs'']], preprocess_caption = str_split,
       max_size = None, min_freq = 1,
       arg_bos_token = ''<bos>'', arg_eos_token = ''<eos>'',
       arg_padding_token = ''<pad>'', arg_unk_token = ''<unk>'',
       pretrained_language_model = None \<rparr>"

definition vocab_dogs :: vocab where
  "vocab_dogs =
     \<lparr> freqs = [(''a'', 2), (''dog'', 1), (''runs'', 2), (''cat'', 1)],
       max_caption_length = 5,
       padding_token = ''<pad>'', bos_token = ''<bos>'', eos_token = ''<eos>'', unk_token = ''<unk>'',
       itos = [(0, ''<pad>''), (1, ''<bos>''), (2, ''<eos>''), (3, ''<unk>''),
               (4, ''a''), (5, ''runs''), (6, ''cat''), (7, ''dog'')],
       stoi = [(''<pad>'', 0), (''<bos>'', 1), (''<eos>'', 2), (''<unk>'', 3),
               (''a'', 4), (''runs'', 5), (''cat'', 6), (''dog'', 7)],
       padding_idx = 0, bos_idx = 1, eos_idx = 2, unk_idx = 3,
       specials = [''<pad>'', ''<bos>'', ''<eos>'', ''<unk>''] \<rparr>"

text \<open>The same arguments with the threshold \<^verbatim>\<open>min_freq=2\<close>.\<close>

definition args_min2 :: init_args where
  "args_min2 = args_dogs \<lparr> min_freq := 2 \<rparr>"

definition vocab_min2 :: vocab where
  "vocab_min2 =
     \<lparr> freqs = [(''a'', 2), (''dog'', 1), (''runs'', 2), (''cat'', 1)],
       max_caption_length = 5,
       padding_token = ''<pad>'', bos_token = ''<bos>'', eos_token = ''<eos>'', unk_token = ''<unk>'',
       itos = [(0, ''<pad>''), (1, ''<bos>''), (2, ''<eos>''), (3, ''<unk>''),
               (4, ''a''), (5, ''runs'')],
       stoi = [(''<pad>'', 0), (''<bos>'', 1), (''<eos>'', 2), (''<unk>'', 3),
               (''a'', 4), (''runs'', 5)],
       padding_idx = 0, bos_idx = 1, eos_idx = 2, unk_idx = 3,
       specials = [''<pad>'', ''<bos>'', ''<eos>'', ''<unk>''] \<rparr>"

text \<open>One caption, and the same name \<^verbatim>\<open><s>\<close> given to the beginning and the end of a
  sequence.\<close>

definition args_same :: init_args where
  "args_same =
     args_dogs \<lparr> json_dirs := [[''a dog'']], arg_bos_token := ''<s>'', arg_eos_token := ''<s>'' \<rparr>"

definition vocab_same :: vocab where
  "vocab_same =
     \<lparr> freqs = [(''a'', 1), (''dog'', 1)],
       max_caption_length = 4,
       padding_token = ''<pad>'', bos_token = ''<s>'', eos_token = ''<s>'', unk_token = ''<unk>'',
       itos = [(0, ''<pad>''), (1, ''<s>''), (2, ''<s>''), (3, ''<unk>''), (4, ''a''), (5, ''dog'')],
       stoi = [(''<pad>'', 0), (''<s>'', 2), (''<unk>'', 3), (''a'', 4), (''dog'', 5)],
       padding_idx = 0, bos_idx = 2, eos_idx = 2, unk_idx = 3,
       specials = [''<pad>'', ''<s>'', ''<s>'', ''<unk>''] \<rparr>"

text \<open>A tokenizer that returns the whole caption as one token.\<close>

definition args_whole :: init_args where
  "args_whole = args_dogs \<lparr> json_dirs := [[''a b'']], preprocess_caption := (\<lambda>s. [s]) \<rparr>"

definition vocab_whole :: vocab where
  "vocab_whole =
     \<lparr> freqs = [(''a b'', 1)],
       max_caption_length = 3,
       padding_token = ''<pad>'', bos_token = ''<bos>'', eos_token = ''<eos>'', unk_token = ''<unk>'',
       itos = [(0, ''<pad>''), (1, ''<bos>''), (2, ''<eos>''), (3, ''<unk>''), (4, ''a b'')],
       stoi = [(''<pad>'', 0), (''<bos>'', 1), (''<eos>'', 2), (''<unk>'', 3), (''a b'', 4)],
       padding_idx = 0, bos_idx = 1, eos_idx = 2, unk_idx = 3,
       specials = [''<pad>'', ''<bos>'', ''<eos>'', ''<unk>''] \<rparr>"

text \<open>A caption in which the string of the unknown token occurs.\<close>

definition args_unk :: init_args where
  "args_unk = args_dogs \<lparr> json_dirs := [[''a <unk>'']] \<rparr>"

definition vocab_unk :: vocab where
  "vocab_unk =
     \<lparr> freqs = [(''a'', 1), (''<unk>'', 1)],
       max_caption_length = 4,
       padding_token = ''<pad>'', bos_token = ''<bos>'', eos_token = ''<eos>'', unk_token = ''<unk>'',
       itos = [(0, ''<pad>''), (1, ''<bos>''), (2, ''<eos>''), (3, ''<unk>''),
               (4, ''<unk>''), (5, ''a'')],
       stoi = [(''<pad>'', 0), (''<bos>'', 1), (''<eos>'', 2), (''<unk>'', 4), (''a'', 5)],
       padding_idx = 0, bos_idx = 1, eos_idx = 2, unk_idx = 4,
       specials = [''<pad>'', ''<bos>'', ''<eos>'', ''<unk>''] \<rparr>"

text \<open>A pretrained tokenizer with five entries, and the vocabulary built from it.\<close>

definition enc_small :: token_encoder where
  "enc_small =
     \<lparr> pad_token = Some ''[PAD]'', enc_bos_token = Some ''[CLS]'', enc_eos_token = Some ''[SEP]'',
       enc_unk_token = Some ''[UNK]'',
       get_vocab = [(''[PAD]'', 0), (''[UNK]'', 100), (''[CLS]'', 101), (''[SEP]'', 102),
                    (''dog'', 200)] \<rparr>"

definition args_pretrained :: init_args where
  "args_pretrained = args_dogs \<lparr> pretrained_language_model := Some enc_small \<rparr>"

definition vocab_pretrained :: vocab where
  "vocab_pretrained =
     \<lparr> freqs = [(''a'', 2), (''dog'', 1), (''runs'', 2), (''cat'', 1)],
       max_caption_length = 5,
       padding_token = ''[PAD]'', bos_token = ''[CLS]'', eos_token = ''[SEP]'', unk_token = ''[UNK]'',
       itos = [(0, ''[PAD]''), (100, ''[UNK]''), (101, ''[CLS]''), (102, ''[SEP]''), (200, ''dog'')],
       stoi = [(''[PAD]'', 0), (''[UNK]'', 100), (''[CLS]'', 101), (''[SEP]'', 102), (''dog'', 200)],
       padding_idx = 0, bos_idx = 101, eos_idx = 102, unk_idx = 100,
       specials = [''[PAD]'', ''[CLS]'', ''[SEP]'', ''[UNK]''] \<rparr>"




section \<open>Properties\<close>

subsection \<open>The concrete constructions\<close>

lemma Vocab_init_args_dogs: "Vocab_init args_dogs = Inr vocab_dogs"
  by code_simp

lemma Vocab_init_args_min2: "Vocab_init args_min2 = Inr vocab_min2"
  by code_simp

lemma Vocab_init_args_same: "Vocab_init args_same = Inr vocab_same"
  by code_simp

lemma Vocab_init_args_whole: "Vocab_init args_whole = Inr vocab_whole"
  by code_simp

lemma Vocab_init_args_unk: "Vocab_init args_unk = Inr vocab_unk"
  by code_simp

lemma Vocab_init_args_pretrained: "Vocab_init args_pretrained = Inr vocab_pretrained"
  by code_simp


subsection \<open>Dictionaries\<close>

lemma update_fresh: "k \<notin> fst ` set d \<Longrightarrow> AList.update k v d = d @ [(k, v)]"
  by (induction d) auto

lemma fold_update_map_of:
  "map_of (fold (\<lambda>(k, v) d. AList.update k v d) kvs d) = map_of d ++ map_of (rev kvs)"
proof (induction kvs arbitrary: d)
  case Nil
  then show ?case by simp
next
  case (Cons kv kvs)
  obtain k v where kv: "kv = (k, v)" by (cases kv)
  show ?case
    by (simp add: kv Cons.IH update_conv' map_add_upd_left fun_eq_iff map_add_def split: option.splits)
qed

lemma map_of_dict_of: "map_of (dict_of kvs) = map_of (rev kvs)"
  by (simp add: dict_of_def fold_update_map_of)

lemma fold_update_distinct:
  "distinct (map fst d) \<Longrightarrow> distinct (map fst (fold (\<lambda>(k, v) d. AList.update k v d) kvs d))"
  by (induction kvs arbitrary: d) (auto simp: distinct_update)

lemma distinct_dict_of: "distinct (map fst (dict_of kvs))"
  by (simp add: dict_of_def fold_update_distinct)

lemma fold_update_keys:
  "fst ` set (fold (\<lambda>(k, v) d. AList.update k v d) kvs d) = fst ` set d \<union> fst ` set kvs"
proof (induction kvs arbitrary: d)
  case Nil
  then show ?case by simp
next
  case (Cons kv kvs)
  obtain k v where kv: "kv = (k, v)" by (cases kv)
  have "fst ` set (AList.update k v d) = insert k (fst ` set d)"
    by (simp add: dom_update)
  then show ?case by (simp add: kv Cons.IH)
qed

lemma keys_dict_of: "fst ` set (dict_of kvs) = fst ` set kvs"
  by (simp add: dict_of_def fold_update_keys)

lemma fold_update_fresh:
  "distinct (map fst (d @ kvs)) \<Longrightarrow> fold (\<lambda>(k, v) d. AList.update k v d) kvs d = d @ kvs"
proof (induction kvs arbitrary: d)
  case Nil
  then show ?case by simp
next
  case (Cons kv kvs)
  obtain k v where kv: "kv = (k, v)" by (cases kv)
  from Cons.prems have fresh: "k \<notin> fst ` set d" by (auto simp: kv)
  from Cons.prems have "distinct (map fst ((d @ [(k, v)]) @ kvs))" by (simp add: kv)
  from Cons.IH [OF this] show ?case by (simp add: kv update_fresh [OF fresh])
qed

lemma dict_of_distinct: "distinct (map fst kvs) \<Longrightarrow> dict_of kvs = kvs"
  using fold_update_fresh [of "[]" kvs] by (simp add: dict_of_def)

text \<open>Reversing a dictionary, \<^verbatim>\<open>{v: k for k, v in d.items()}\<close>.\<close>

lemma reversed_dict_sound:
  assumes "distinct (map fst d)"
    and "map_of (dict_of (map (\<lambda>(a, b). (b, a)) d)) b = Some a"
  shows "map_of d a = Some b"
proof -
  from assms(2) have "(b, a) \<in> set (rev (map (\<lambda>(a, b). (b, a)) d))"
    unfolding map_of_dict_of by (rule map_of_SomeD)
  then have "(a, b) \<in> set d" by auto
  with assms(1) show ?thesis by simp
qed

lemma reversed_dict_complete:
  assumes "distinct (map snd d)" and "map_of d a = Some b"
  shows "map_of (dict_of (map (\<lambda>(a, b). (b, a)) d)) b = Some a"
proof -
  have eq: "map fst (rev (map (\<lambda>(a, b). (b, a)) d)) = rev (map snd d)"
    by (induction d) auto
  from assms(2) have "(b, a) \<in> set (rev (map (\<lambda>(a, b). (b, a)) d))"
    by (auto dest: map_of_SomeD)
  moreover from assms(1) have "distinct (map fst (rev (map (\<lambda>(a, b). (b, a)) d)))"
    by (simp add: eq)
  ultimately show ?thesis unfolding map_of_dict_of by simp
qed

subsection \<open>enumerate\<close>

lemma map_fst_enumerate_int: "map fst (enumerate_int xs) = map int [0..<length xs]"
  by (simp add: enumerate_int_def)

lemma map_snd_enumerate_int: "map snd (enumerate_int xs) = xs"
  by (simp add: enumerate_int_def)

lemma distinct_enumerate_int: "distinct (map fst (enumerate_int xs))"
  by (simp add: map_fst_enumerate_int distinct_map)

lemma map_of_enumerate_int:
  "map_of (enumerate_int xs) i = (if 0 \<le> i \<and> nat i < length xs then Some (xs ! nat i) else None)"
proof (cases "0 \<le> i \<and> nat i < length xs")
  case True
  then have "(i, xs ! nat i) \<in> set (enumerate_int xs)"
    unfolding enumerate_int_def in_set_zip
    by (intro exI [of _ "nat i"]) simp
  with distinct_enumerate_int [of xs] True show ?thesis by simp
next
  case False
  then have "i \<notin> fst ` set (enumerate_int xs)"
    unfolding set_map [symmetric] map_fst_enumerate_int by auto
  then have "map_of (enumerate_int xs) i = None" by (simp add: map_of_eq_None_iff)
  with False show ?thesis by auto
qed

subsection \<open>Counters\<close>

lemma counter_update_distinct:
  "distinct (map fst c) \<Longrightarrow> distinct (map fst (counter_update c elems))"
  unfolding counter_update_def
  by (induction elems arbitrary: c) (auto simp: distinct_update)

lemma counter_get_update:
  "counter_get (counter_update c elems) t = counter_get c t + int (count_list elems t)"
  unfolding counter_update_def
proof (induction elems arbitrary: c)
  case Nil
  then show ?case by simp
next
  case (Cons e elems)
  have "counter_get (AList.update e (counter_get c e + 1) c) t
      = counter_get c t + (if e = t then 1 else 0)"
    by (simp add: counter_get_def update_conv')
  with Cons.IH [of "AList.update e (counter_get c e + 1) c"] show ?case by simp
qed

lemma counter_update_keys:
  "fst ` set (counter_update c elems) = fst ` set c \<union> set elems"
  unfolding counter_update_def
  by (induction elems arbitrary: c) (auto simp: dom_update)

subsection \<open>make_vocab\<close>

lemma counter_update_append:
  "counter_update c (xs @ ys) = counter_update (counter_update c xs) ys"
  by (simp add: counter_update_def)

lemma fold_make_vocab_ann_fst:
  "fst (fold (make_vocab_ann pre) anns st) = counter_update (fst st) (concat (map pre anns))"
proof (induction anns arbitrary: st)
  case Nil
  then show ?case by (simp add: counter_update_def)
next
  case (Cons ann anns)
  show ?case
    by (simp add: Cons.IH counter_update_append) (simp add: make_vocab_ann_def Let_def)
qed

lemma fold_files_fst:
  "fst (fold (\<lambda>json_data st. fold (make_vocab_ann pre) json_data st) dirs st)
     = counter_update (fst st) (concat (map pre (concat dirs)))"
proof (induction dirs arbitrary: st)
  case Nil
  then show ?case by (simp add: counter_update_def)
next
  case (Cons d dirs)
  show ?case by (simp add: Cons.IH fold_make_vocab_ann_fst counter_update_append)
qed

lemma make_vocab_freqs:
  "fst (make_vocab pre dirs) = counter_update [] (concat (map pre (concat dirs)))"
  by (simp add: make_vocab_def fold_files_fst)

lemma make_vocab_distinct: "distinct (map fst (fst (make_vocab pre dirs)))"
  by (simp add: make_vocab_freqs counter_update_distinct)

lemma make_vocab_keys:
  "fst ` set (fst (make_vocab pre dirs)) = set (concat (map pre (concat dirs)))"
  by (simp add: make_vocab_freqs counter_update_keys)

lemma make_vocab_count:
  "counter_get (fst (make_vocab pre dirs)) t = int (count_list (concat (map pre (concat dirs))) t)"
  by (simp add: make_vocab_freqs counter_get_update) (simp add: counter_get_def)

subsection \<open>Sorting\<close>

lemma insort_key_ties:
  assumes "sorted_wrt (\<lambda>a b. f a < f b \<or> (f a = f b \<and> R a b)) ys"
    and "\<forall>y\<in>set ys. R x y"
  shows "sorted_wrt (\<lambda>a b. f a < f b \<or> (f a = f b \<and> R a b)) (insort_key f x ys)"
  using assms
proof (induction ys)
  case Nil
  then show ?case by simp
next
  case (Cons y ys)
  show ?case
  proof (cases "f x \<le> f y")
    case True
    have "f x < f z \<or> (f x = f z \<and> R x z)" if "z \<in> set (y # ys)" for z
    proof -
      from that Cons.prems(1) have "f y \<le> f z" by auto
      with True have "f x \<le> f z" by simp
      moreover from that Cons.prems(2) have "R x z" by auto
      ultimately show ?thesis by auto
    qed
    with True Cons.prems(1) show ?thesis by simp
  next
    case False
    from Cons.prems have "sorted_wrt (\<lambda>a b. f a < f b \<or> (f a = f b \<and> R a b)) (insort_key f x ys)"
      by (intro Cons.IH) simp_all
    with False Cons.prems(1) show ?thesis by (auto simp: set_insort_key)
  qed
qed

lemma sort_key_ties:
  "sorted_wrt R xs \<Longrightarrow> sorted_wrt (\<lambda>a b. f a < f b \<or> (f a = f b \<and> R a b)) (sort_key f xs)"
proof (induction xs)
  case Nil
  then show ?case by simp
next
  case (Cons x xs)
  then show ?case by (simp add: insort_key_ties)
qed

lemma sort_reverse_ties:
  assumes "sorted_wrt R xs"
  shows "sorted_wrt (\<lambda>a b. f b < f a \<or> (f a = f b \<and> R a b)) (sort_reverse f xs)"
proof -
  from assms have "sorted_wrt (\<lambda>a b. R b a) (rev xs)" by (simp add: sorted_wrt_rev)
  then have "sorted_wrt (\<lambda>a b. f a < f b \<or> (f a = f b \<and> R b a)) (sort_key f (rev xs))"
    by (rule sort_key_ties)
  then have "sorted_wrt (\<lambda>a b. f b < f a \<or> (f b = f a \<and> R a b)) (sort_reverse f xs)"
    unfolding sort_reverse_def by (simp add: sorted_wrt_rev)
  then show ?thesis by (rule sorted_wrt_mono_rel [rotated]) auto
qed

lemma set_sort_reverse: "set (sort_reverse f xs) = set xs"
  by (simp add: sort_reverse_def)

lemma set_words_and_frequencies: "set (words_and_frequencies c) = set c"
  by (simp add: words_and_frequencies_def set_sort_reverse)

lemma distinct_words_and_frequencies:
  "distinct (map fst c) \<Longrightarrow> distinct (map fst (words_and_frequencies c))"
  by (simp add: words_and_frequencies_def sort_reverse_def distinct_map inj_on_def
      rev_map [symmetric])

lemma sorted_words_and_frequencies:
  assumes "distinct (map fst c)"
  shows "sorted_wrt (\<lambda>a b. snd b < snd a \<or> (snd a = snd b \<and> fst a < fst b))
           (words_and_frequencies c)"
proof -
  have "sorted (map fst (sort_key fst c))" by simp
  moreover from assms have "distinct (map fst (sort_key fst c))"
    by (simp add: distinct_map inj_on_def)
  ultimately have "sorted_wrt (<) (map fst (sort_key fst c))"
    by (simp add: strict_sorted_iff)
  then have "sorted_wrt (\<lambda>a b. fst a < fst b) (sort_key fst c)"
    by (simp add: sorted_wrt_map)
  then show ?thesis unfolding words_and_frequencies_def by (rule sort_reverse_ties)
qed

subsection \<open>The appended words\<close>

lemma append_words_None:
  "append_words mf None its ws = its @ map fst (takeWhile (\<lambda>p. \<not> snd p < mf) ws)"
  by (induction ws arbitrary: its) auto

subsection \<open>What a completed construction looks like\<close>

lemma stoi_item_Inr: "stoi_item d tok = Inr p \<Longrightarrow> tok = Some (fst p) \<and> map_of d (fst p) = Some (snd p)"
  by (auto simp: stoi_item_def split: option.splits)

lemma init_indices_Inr:
  assumes "init_indices fr mcl its sti pad bos eos unk = Inr v"
  shows "freqs v = fr \<and> max_caption_length v = mcl \<and> itos v = its \<and> stoi v = sti \<and>
         specials v = [padding_token v, bos_token v, eos_token v, unk_token v]"
    and "pad = Some (padding_token v) \<and> bos = Some (bos_token v) \<and>
         eos = Some (eos_token v) \<and> unk = Some (unk_token v)"
    and "map_of sti (padding_token v) = Some (padding_idx v) \<and>
         map_of sti (bos_token v) = Some (bos_idx v) \<and>
         map_of sti (eos_token v) = Some (eos_idx v) \<and>
         map_of sti (unk_token v) = Some (unk_idx v)"
proof -
  from assms obtain p b e u where
    p: "stoi_item sti pad = Inr p" and b: "stoi_item sti bos = Inr b" and
    e: "stoi_item sti eos = Inr e" and u: "stoi_item sti unk = Inr u" and
    v: "v = \<lparr> freqs = fr, max_caption_length = mcl,
              padding_token = fst p, bos_token = fst b, eos_token = fst e, unk_token = fst u,
              itos = its, stoi = sti,
              padding_idx = snd p, bos_idx = snd b, eos_idx = snd e, unk_idx = snd u,
              specials = [fst p, fst b, fst e, fst u] \<rparr>"
    unfolding init_indices_def by (auto split: sum.splits)
  show "freqs v = fr \<and> max_caption_length v = mcl \<and> itos v = its \<and> stoi v = sti \<and>
         specials v = [padding_token v, bos_token v, eos_token v, unk_token v]"
    by (simp add: v)
  show "pad = Some (padding_token v) \<and> bos = Some (bos_token v) \<and>
         eos = Some (eos_token v) \<and> unk = Some (unk_token v)"
    using stoi_item_Inr [OF p] stoi_item_Inr [OF b] stoi_item_Inr [OF e] stoi_item_Inr [OF u]
    by (simp add: v)
  show "map_of sti (padding_token v) = Some (padding_idx v) \<and>
         map_of sti (bos_token v) = Some (bos_idx v) \<and>
         map_of sti (eos_token v) = Some (eos_idx v) \<and>
         map_of sti (unk_token v) = Some (unk_idx v)"
    using stoi_item_Inr [OF p] stoi_item_Inr [OF b] stoi_item_Inr [OF e] stoi_item_Inr [OF u]
    by (simp add: v)
qed

lemma Vocab_init_Inr:
  assumes "Vocab_init a = Inr v"
  shows "max_size a = None"
    and "freqs v = fst (make_vocab (preprocess_caption a) (json_dirs a))"
    and "max_caption_length v = snd (make_vocab (preprocess_caption a) (json_dirs a))"
    and "specials v = [padding_token v, bos_token v, eos_token v, unk_token v]"
    and "map_of (stoi v) (padding_token v) = Some (padding_idx v)"
    and "map_of (stoi v) (bos_token v) = Some (bos_idx v)"
    and "map_of (stoi v) (eos_token v) = Some (eos_idx v)"
    and "map_of (stoi v) (unk_token v) = Some (unk_idx v)"
proof -
  show ms: "max_size a = None"
    using assms by (cases "max_size a") (simp_all add: Vocab_init_def cap_max_size_def)
  from assms obtain its sti pad bos eos unk where
    "init_indices (fst (make_vocab (preprocess_caption a) (json_dirs a)))
       (snd (make_vocab (preprocess_caption a) (json_dirs a))) its sti pad bos eos unk = Inr v"
    by (cases "pretrained_language_model a")
      (simp_all add: Vocab_init_def cap_max_size_def ms Let_def)
  note ii = init_indices_Inr [OF this]
  from ii show "freqs v = fst (make_vocab (preprocess_caption a) (json_dirs a))" by simp
  from ii show "max_caption_length v = snd (make_vocab (preprocess_caption a) (json_dirs a))" by simp
  from ii show "specials v = [padding_token v, bos_token v, eos_token v, unk_token v]" by simp
  from ii show "map_of (stoi v) (padding_token v) = Some (padding_idx v)" by simp
  from ii show "map_of (stoi v) (bos_token v) = Some (bos_idx v)" by simp
  from ii show "map_of (stoi v) (eos_token v) = Some (eos_idx v)" by simp
  from ii show "map_of (stoi v) (unk_token v) = Some (unk_idx v)" by simp
qed

lemma Vocab_init_plain:
  assumes "Vocab_init a = Inr v" and "pretrained_language_model a = None"
  shows "itos v = enumerate_int (build_itos a None (freqs v))"
    and "stoi v = dict_of (map (\<lambda>(i, tok). (tok, i)) (itos v))"
    and "padding_token v = arg_padding_token a \<and> bos_token v = arg_bos_token a \<and>
         eos_token v = arg_eos_token a \<and> unk_token v = arg_unk_token a"
proof -
  have ms: "max_size a = None" by (rule Vocab_init_Inr(1) [OF assms(1)])
  have fr: "freqs v = fst (make_vocab (preprocess_caption a) (json_dirs a))"
    by (rule Vocab_init_Inr(2) [OF assms(1)])
  let ?its = "dict_of (enumerate_int (build_itos a None (freqs v)))"
  from assms have
    "init_indices (freqs v) (snd (make_vocab (preprocess_caption a) (json_dirs a)))
       ?its (dict_of (map (\<lambda>(i, tok). (tok, i)) ?its))
       (Some (arg_padding_token a)) (Some (arg_bos_token a))
       (Some (arg_eos_token a)) (Some (arg_unk_token a)) = Inr v"
    by (simp add: Vocab_init_def cap_max_size_def ms Let_def fr)
  note ii = init_indices_Inr [OF this]
  have its: "?its = enumerate_int (build_itos a None (freqs v))"
    by (rule dict_of_distinct) (rule distinct_enumerate_int)
  from ii(1) show "itos v = enumerate_int (build_itos a None (freqs v))"
    by (simp add: its)
  from ii(1) show "stoi v = dict_of (map (\<lambda>(i, tok). (tok, i)) (itos v))" by simp
  from ii(2) show "padding_token v = arg_padding_token a \<and> bos_token v = arg_bos_token a \<and>
         eos_token v = arg_eos_token a \<and> unk_token v = arg_unk_token a" by simp
qed

lemma Vocab_init_pretrained:
  assumes "Vocab_init a = Inr v" and "pretrained_language_model a = Some enc"
  shows "stoi v = get_vocab enc"
    and "itos v = dict_of (map (\<lambda>(tok, i). (i, tok)) (stoi v))"
proof -
  have ms: "max_size a = None" by (rule Vocab_init_Inr(1) [OF assms(1)])
  from assms have
    "init_indices (fst (make_vocab (preprocess_caption a) (json_dirs a)))
       (snd (make_vocab (preprocess_caption a) (json_dirs a)))
       (dict_of (map (\<lambda>(tok, i). (i, tok)) (get_vocab enc))) (get_vocab enc)
       (pad_token enc) (enc_bos_token enc) (enc_eos_token enc) (enc_unk_token enc) = Inr v"
    by (simp add: Vocab_init_def cap_max_size_def ms Let_def)
  note ii = init_indices_Inr [OF this]
  from ii(1) show "stoi v = get_vocab enc" by simp
  from ii(1) show "itos v = dict_of (map (\<lambda>(tok, i). (i, tok)) (stoi v))" by simp
qed

lemma build_itos_None:
  "build_itos a None c =
     [arg_padding_token a, arg_bos_token a, arg_eos_token a, arg_unk_token a] @
     map fst (takeWhile (\<lambda>p. \<not> snd p < max (min_freq a) 1) (words_and_frequencies c))"
  by (simp add: build_itos_def append_words_None)

subsection \<open>Order of the entries, threshold and frequency table\<close>

lemma counter_get_member:
  "distinct (map fst c) \<Longrightarrow> p \<in> set c \<Longrightarrow> counter_get c (fst p) = snd p"
  by (cases p) (simp add: counter_get_def)

lemma kept_words_sorted:
  assumes "distinct (map fst c)"
  shows "sorted_wrt (\<lambda>s t. counter_get c t < counter_get c s \<or>
                          (counter_get c s = counter_get c t \<and> s < t))
           (map fst (takeWhile P (words_and_frequencies c)))"
proof -
  let ?ws = "takeWhile P (words_and_frequencies c)"
  have srt: "sorted_wrt (\<lambda>a b. snd b < snd a \<or> (snd a = snd b \<and> fst a < fst b)) ?ws"
    using sorted_words_and_frequencies [OF assms] by (rule sorted_wrt_takeWhile)
  have cnt: "counter_get c (fst p) = snd p" if "p \<in> set ?ws" for p
  proof -
    from set_takeWhileD [OF that] have "p \<in> set c"
      by (simp add: set_words_and_frequencies)
    with assms show ?thesis by (rule counter_get_member)
  qed
  have "sorted_wrt (\<lambda>a b. counter_get c (fst b) < counter_get c (fst a) \<or>
      (counter_get c (fst a) = counter_get c (fst b) \<and> fst a < fst b)) ?ws"
    by (rule sorted_wrt_mono_rel [OF _ srt]) (simp add: cnt)
  then show ?thesis by (simp add: sorted_wrt_map)
qed

lemma Vocab_init_freqs_distinct: "Vocab_init a = Inr v \<Longrightarrow> distinct (map fst (freqs v))"
  by (simp add: Vocab_init_Inr(2) make_vocab_distinct)

text \<open>
  Claim C5. In every construction without a pretrained language model, the keys of
  \<^verbatim>\<open>itos\<close> are 0, 1, 2, ... in order, the first four entries are the padding, bos, eos
  and unk tokens in this order, and among the remaining entries an earlier one has a
  strictly larger count in the frequency table than a later one, or the same count and
  a strictly smaller string.
\<close>

theorem itos_specials_then_frequency_order:
  assumes "Vocab_init a = Inr v" and "pretrained_language_model a = None"
  shows "map fst (itos v) = map int [0..<length (itos v)] \<and>
         take 4 (map snd (itos v)) =
           [arg_padding_token a, arg_bos_token a, arg_eos_token a, arg_unk_token a] \<and>
         sorted_wrt (\<lambda>s t. counter_get (freqs v) t < counter_get (freqs v) s \<or>
                          (counter_get (freqs v) s = counter_get (freqs v) t \<and> s < t))
           (drop 4 (map snd (itos v)))"
proof -
  have its: "itos v = enumerate_int (build_itos a None (freqs v))"
    by (rule Vocab_init_plain(1) [OF assms])
  have "map fst (itos v) = map int [0..<length (itos v)]"
    by (simp add: its enumerate_int_def)
  moreover have "take 4 (map snd (itos v)) =
      [arg_padding_token a, arg_bos_token a, arg_eos_token a, arg_unk_token a]"
    by (simp add: its map_snd_enumerate_int build_itos_None)
  moreover have "sorted_wrt (\<lambda>s t. counter_get (freqs v) t < counter_get (freqs v) s \<or>
                          (counter_get (freqs v) s = counter_get (freqs v) t \<and> s < t))
           (drop 4 (map snd (itos v)))"
    using kept_words_sorted [OF Vocab_init_freqs_distinct [OF assms(1)]]
    by (simp add: its map_snd_enumerate_int build_itos_None)
  ultimately show ?thesis by simp
qed

theorem itos_specials_then_frequency_order_witness:
  "Vocab_init args_dogs = Inr vocab_dogs \<and> pretrained_language_model args_dogs = None \<and>
   map fst (itos vocab_dogs) = map int [0..<length (itos vocab_dogs)] \<and>
   take 4 (map snd (itos vocab_dogs)) =
     [arg_padding_token args_dogs, arg_bos_token args_dogs, arg_eos_token args_dogs,
      arg_unk_token args_dogs] \<and>
   sorted_wrt (\<lambda>s t. counter_get (freqs vocab_dogs) t < counter_get (freqs vocab_dogs) s \<or>
                    (counter_get (freqs vocab_dogs) s = counter_get (freqs vocab_dogs) t \<and> s < t))
     (drop 4 (map snd (itos vocab_dogs))) \<and>
   drop 4 (map snd (itos vocab_dogs)) = [''a'', ''runs'', ''cat'', ''dog'']"
proof -
  have n: "pretrained_language_model args_dogs = None" by (simp add: args_dogs_def)
  have d: "drop 4 (map snd (itos vocab_dogs)) = [''a'', ''runs'', ''cat'', ''dog'']"
    by (simp add: vocab_dogs_def)
  from itos_specials_then_frequency_order [OF Vocab_init_args_dogs n] Vocab_init_args_dogs n d
  show ?thesis by blast
qed

lemma stoi_keys_plain:
  assumes "Vocab_init a = Inr v" and "pretrained_language_model a = None"
  shows "fst ` set (stoi v) = set (build_itos a None (freqs v))"
proof -
  have "fst ` set (stoi v) = fst ` set (map (\<lambda>(i, tok). (tok, i)) (itos v))"
    by (simp only: Vocab_init_plain(2) [OF assms] keys_dict_of)
  also have "\<dots> = snd ` set (itos v)" by force
  also have "\<dots> = set (map snd (itos v))" by simp
  also have "\<dots> = set (build_itos a None (freqs v))"
    by (simp only: Vocab_init_plain(1) [OF assms] map_snd_enumerate_int)
  finally show ?thesis .
qed

text \<open>
  Claim C6. In every construction without a pretrained language model, a token that is
  not one of the special tokens and whose count in the frequency table is below
  \<open>max min_freq 1\<close> is not a key of \<^verbatim>\<open>stoi\<close>.
\<close>

theorem rare_tokens_absent:
  assumes "Vocab_init a = Inr v" and "pretrained_language_model a = None"
    and "t \<notin> set (specials v)" and "counter_get (freqs v) t < max (min_freq a) 1"
  shows "t \<notin> fst ` set (stoi v)"
proof
  assume "t \<in> fst ` set (stoi v)"
  then have "t \<in> set (build_itos a None (freqs v))"
    by (simp only: stoi_keys_plain [OF assms(1,2)])
  moreover have "set (specials v) =
      {arg_padding_token a, arg_bos_token a, arg_eos_token a, arg_unk_token a}"
    using Vocab_init_Inr(4) [OF assms(1)] Vocab_init_plain(3) [OF assms(1,2)] by auto
  ultimately obtain p where
    p: "p \<in> set (takeWhile (\<lambda>p. \<not> snd p < max (min_freq a) 1) (words_and_frequencies (freqs v)))"
    and t: "t = fst p"
    using assms(3) by (auto simp: build_itos_None)
  from set_takeWhileD [OF p] have "p \<in> set (freqs v)" and "\<not> snd p < max (min_freq a) 1"
    by (simp_all add: set_words_and_frequencies)
  with counter_get_member [OF Vocab_init_freqs_distinct [OF assms(1)], of p] assms(4) t
  show False by simp
qed

theorem rare_tokens_absent_witness:
  "Vocab_init args_min2 = Inr vocab_min2 \<and> pretrained_language_model args_min2 = None \<and>
   ''dog'' \<notin> set (specials vocab_min2) \<and>
   counter_get (freqs vocab_min2) ''dog'' < max (min_freq args_min2) 1 \<and>
   ''dog'' \<notin> fst ` set (stoi vocab_min2)"
proof -
  have n: "pretrained_language_model args_min2 = None"
    by (simp add: args_min2_def args_dogs_def)
  have s: "''dog'' \<notin> set (specials vocab_min2)" by (simp add: vocab_min2_def)
  have c: "counter_get (freqs vocab_min2) ''dog'' < max (min_freq args_min2) 1"
    by (simp add: vocab_min2_def args_min2_def counter_get_def)
  from rare_tokens_absent [OF Vocab_init_args_min2 n s c] Vocab_init_args_min2 n s c
  show ?thesis by blast
qed

text \<open>
  Claim C9 (as amended). The claim: the stored frequency table gives each token that is
  not special its number of occurrences over all annotation files, and has no entry for
  a special token even when its string occurs in a caption. The code: the special tokens
  are deleted from the copy \<^verbatim>\<open>counter\<close> only, never from \<^verbatim>\<open>self.freqs\<close>; a caption
  \<^verbatim>\<open>a <unk>\<close> leaves the entry \<^verbatim>\<open><unk>: 1\<close> in the table. What holds: after every
  construction the table has each key once, and gives every string, special or not, its
  number of occurrences among the tokens of all captions, with no entry for a string
  that does not occur.
\<close>

theorem freqs_counts_every_token:
  assumes "Vocab_init a = Inr v"
  shows "distinct (map fst (freqs v)) \<and>
         map_of (freqs v) t =
           (if count_list (caption_tokens a) t = 0 then None
            else Some (int (count_list (caption_tokens a) t)))"
proof -
  have fr: "freqs v = fst (make_vocab (preprocess_caption a) (json_dirs a))"
    by (rule Vocab_init_Inr(2) [OF assms])
  have cnt: "counter_get (freqs v) t = int (count_list (caption_tokens a) t)"
    by (simp add: fr make_vocab_count caption_tokens_def)
  have keys: "fst ` set (freqs v) = set (caption_tokens a)"
    by (simp add: fr make_vocab_keys caption_tokens_def)
  show ?thesis
  proof (cases "count_list (caption_tokens a) t = 0")
    case True
    then have "t \<notin> fst ` set (freqs v)" by (simp add: keys count_list_0_iff)
    then have "map_of (freqs v) t = None" by (simp add: map_of_eq_None_iff)
    with True Vocab_init_freqs_distinct [OF assms] show ?thesis by simp
  next
    case False
    then have "t \<in> fst ` set (freqs v)" by (simp add: keys count_list_0_iff)
    then obtain n where "map_of (freqs v) t = Some n"
      by (metis map_of_eq_None_iff not_Some_eq)
    with cnt False Vocab_init_freqs_distinct [OF assms] show ?thesis
      by (simp add: counter_get_def)
  qed
qed

theorem freqs_counts_every_token_counterexample:
  "Vocab_init args_unk = Inr vocab_unk \<and>
   ''<unk>'' \<in> set (specials vocab_unk) \<and> map_of (freqs vocab_unk) ''<unk>'' = Some 1"
  by (simp add: Vocab_init_args_unk) (simp add: vocab_unk_def)

theorem freqs_counts_every_token_witness:
  "Vocab_init args_dogs = Inr vocab_dogs \<and>
   count_list (caption_tokens args_dogs) ''runs'' = 2 \<and>
   map_of (freqs vocab_dogs) ''runs'' = Some 2 \<and>
   count_list (caption_tokens args_dogs) ''<unk>'' = 0 \<and>
   map_of (freqs vocab_dogs) ''<unk>'' = None"
proof -
  have r: "count_list (caption_tokens args_dogs) ''runs'' = 2" by code_simp
  have u: "count_list (caption_tokens args_dogs) ''<unk>'' = 0" by code_simp
  from freqs_counts_every_token [OF Vocab_init_args_dogs, of "''runs''"] r
  have 1: "map_of (freqs vocab_dogs) ''runs'' = Some 2" by simp
  from freqs_counts_every_token [OF Vocab_init_args_dogs, of "''<unk>''"] u
  have 2: "map_of (freqs vocab_dogs) ''<unk>'' = None" by simp
  from Vocab_init_args_dogs r u 1 2 show ?thesis by blast
qed

subsection \<open>encode\<close>

lemma encode_loop_fits:
  "i + length toks \<le> length vec \<Longrightarrow>
   encode_loop v vec i toks =
     Inr (take i vec @ map (stoi_or_unk v) toks @ drop (i + length toks) vec)"
proof (induction toks arbitrary: vec i)
  case Nil
  then show ?case by simp
next
  case (Cons tok toks)
  from Cons.prems have i: "i < length vec" by simp
  from Cons.prems have "Suc i + length toks \<le> length (vec[i := stoi_or_unk v tok])" by simp
  from Cons.IH [OF this] i show ?case
    by (simp add: take_Suc_conv_app_nth)
qed

lemma encode_loop_overflow:
  "i \<le> length vec \<Longrightarrow> length vec < i + length toks \<Longrightarrow> encode_loop v vec i toks = Inl IndexError"
proof (induction toks arbitrary: vec i)
  case Nil
  then show ?case by simp
next
  case (Cons tok toks)
  show ?case
  proof (cases "i < length vec")
    case True
    with Cons.prems have "encode_loop v (vec[i := stoi_or_unk v tok]) (Suc i) toks = Inl IndexError"
      by (intro Cons.IH) simp_all
    with True show ?thesis by simp
  next
    case False
    then show ?thesis by simp
  qed
qed

lemma encode_caption_eq:
  "encode_caption v T =
     (if length T + 2 \<le> max_caption_length v
      then Inr (stoi_or_unk v (bos_token v) # map (stoi_or_unk v) T @
                stoi_or_unk v (eos_token v) #
                replicate (max_caption_length v - (length T + 2)) (padding_idx v))
      else Inl IndexError)"
proof (cases "length T + 2 \<le> max_caption_length v")
  case True
  then show ?thesis
    unfolding encode_caption_def by (subst encode_loop_fits) simp_all
next
  case False
  then show ?thesis
    unfolding encode_caption_def by (subst encode_loop_overflow) simp_all
qed

subsection \<open>decode\<close>


lemma decode_row_until_eos:
  assumes "eos_idx v \<notin> set pre" and "set pre \<subseteq> fst ` set (itos v)"
    and "map_of (itos v) (eos_idx v) = Some e"
  shows "decode_row v (pre @ eos_idx v # rest) words =
     Inr (words @ filter (\<lambda>t. t \<notin> set (specials v)) (map (\<lambda>i. the (map_of (itos v) i)) pre)
                @ (if e \<notin> set (specials v) then [e] else []))"
  using assms(1,2)
proof (induction pre arbitrary: words)
  case Nil
  then show ?case by (simp add: assms(3))
next
  case (Cons idx pre)
  from Cons.prems obtain tok where "map_of (itos v) idx = Some tok"
    by (metis list.set_intros(1) map_of_eq_None_iff not_Some_eq subsetD)
  with Cons.prems Cons.IH show ?case by (simp add: Let_def)
qed

lemma decode_caption_single:
  "decode_row v row [] = Inr words \<Longrightarrow>
   decode_caption v [row] jw =
     Inr [if jw then Joined (join_words_space words)
          else Tokens (str_split (str_strip (join_words_space words)))]"
  by (simp add: decode_caption_def Let_def)

subsection \<open>Strings\<close>

lemma split_from_word:
  "\<forall>c\<in>set w. \<not> is_space c \<Longrightarrow> split_from cur (w @ rest) = split_from (cur @ w) rest"
  by (induction w arbitrary: cur) simp_all

lemma split_join:
  "\<forall>w\<in>set ws. plain_token w \<Longrightarrow> split_from [] (join_words_space ws) = ws"
proof (induction ws rule: join_words_space.induct)
  case 1
  then show ?case by simp
next
  case (2 w)
  then have "\<forall>c\<in>set w. \<not> is_space c" and "w \<noteq> []"
    by (simp_all add: plain_token_def list_all_iff)
  with split_from_word [of w "[]" "[]"] show ?case by simp
next
  case (3 w w' ws)
  then have w: "\<forall>c\<in>set w. \<not> is_space c" "w \<noteq> []"
    by (simp_all add: plain_token_def list_all_iff)
  have sp: "is_space (CHR '' '')" by (simp add: is_space_def)
  from 3 have IH: "split_from [] (join_words_space (w' # ws)) = w' # ws" by simp
  have "split_from [] (join_words_space (w # w' # ws))
      = split_from w (CHR '' '' # join_words_space (w' # ws))"
    using split_from_word [OF w(1), of "[]"] by simp
  also have "\<dots> = w # split_from [] (join_words_space (w' # ws))"
    using w(2) sp by simp
  finally show ?case by (simp add: IH)
qed

lemma join_ends:
  "ws \<noteq> [] \<Longrightarrow> \<forall>w\<in>set ws. w \<noteq> [] \<Longrightarrow>
   join_words_space ws \<noteq> [] \<and> hd (join_words_space ws) = hd (hd ws) \<and>
   last (join_words_space ws) = last (last ws)"
  by (induction ws rule: join_words_space.induct) auto

lemma strip_join:
  assumes "\<forall>w\<in>set ws. plain_token w"
  shows "str_strip (join_words_space ws) = join_words_space ws"
proof (cases ws)
  case Nil
  then show ?thesis by (simp add: str_strip_def)
next
  case (Cons w ws')
  let ?s = "join_words_space ws"
  from assms have ne: "\<forall>w\<in>set ws. w \<noteq> []" by (simp add: plain_token_def)
  from join_ends [OF _ ne] Cons have s: "?s \<noteq> []" "hd ?s = hd (hd ws)" "last ?s = last (last ws)"
    by simp_all
  from assms Cons have "plain_token (hd ws)" "plain_token (last ws)" by auto
  then have "\<not> is_space (hd (hd ws))" "\<not> is_space (last (last ws))"
    by (simp_all add: plain_token_def list_all_iff)
  with s have h: "\<not> is_space (hd ?s)" and l: "\<not> is_space (last ?s)" by simp_all
  from s(1) h have d1: "dropWhile is_space ?s = ?s" by (cases ?s) simp_all
  from s(1) l have d2: "dropWhile is_space (rev ?s) = rev ?s"
    by (cases "rev ?s") (simp_all add: last_rev [symmetric] hd_rev)
  show ?thesis by (simp add: str_strip_def d1 d2)
qed

lemma split_strip_join:
  "\<forall>w\<in>set ws. plain_token w \<Longrightarrow> str_split (str_strip (join_words_space ws)) = ws"
  by (simp add: strip_join str_split_def split_join)

subsection \<open>The two mappings, and the claims on encoding and decoding\<close>

lemma clean_inputs_encoder_ok: "clean_inputs a \<Longrightarrow> encoder_ok a"
  by (simp add: clean_inputs_def encoder_ok_def split: option.splits)

lemma itos_of_stoi:
  assumes "Vocab_init a = Inr v" and "encoder_ok a" and "map_of (stoi v) t = Some i"
  shows "map_of (itos v) i = Some t"
proof (cases "pretrained_language_model a")
  case None
  have "distinct (map fst (itos v))"
    by (simp only: Vocab_init_plain(1) [OF assms(1) None] distinct_enumerate_int)
  moreover have "map_of (dict_of (map (\<lambda>(i, tok). (tok, i)) (itos v))) t = Some i"
    using assms(3) Vocab_init_plain(2) [OF assms(1) None] by simp
  ultimately show ?thesis by (rule reversed_dict_sound)
next
  case (Some enc)
  from assms(2) Some have "distinct (map snd (stoi v))"
    by (simp add: encoder_ok_def Vocab_init_pretrained(1) [OF assms(1) Some])
  from reversed_dict_complete [OF this assms(3)] show ?thesis
    using Vocab_init_pretrained(2) [OF assms(1) Some] by simp
qed

lemma distinct_map_takeWhile: "distinct (map f xs) \<Longrightarrow> distinct (map f (takeWhile P xs))"
  by (induction xs) (auto dest: set_takeWhileD)

lemma build_itos_distinct:
  assumes "distinct (map fst c)"
    and "distinct [arg_padding_token a, arg_bos_token a, arg_eos_token a, arg_unk_token a]"
    and "\<forall>t\<in>set [arg_padding_token a, arg_bos_token a, arg_eos_token a, arg_unk_token a].
           t \<notin> fst ` set c"
  shows "distinct (build_itos a None c)"
proof -
  let ?ws = "takeWhile (\<lambda>p. \<not> snd p < max (min_freq a) 1) (words_and_frequencies c)"
  have "distinct (map fst ?ws)"
    by (intro distinct_map_takeWhile distinct_words_and_frequencies assms(1))
  moreover have "set (map fst ?ws) \<subseteq> fst ` set c"
    using set_takeWhileD [of _ _ "words_and_frequencies c"]
    by (auto simp: set_words_and_frequencies)
  ultimately show ?thesis
    unfolding build_itos_None using assms(2,3) by (simp only: distinct_append) auto
qed

lemma stoi_of_itos:
  assumes "Vocab_init a = Inr v" and "clean_inputs a" and "map_of (itos v) i = Some t"
  shows "map_of (stoi v) t = Some i"
proof (cases "pretrained_language_model a")
  case None
  have keys: "fst ` set (freqs v) = set (caption_tokens a)"
    by (simp add: Vocab_init_Inr(2) [OF assms(1)] make_vocab_keys caption_tokens_def)
  from assms(2) None have
    "distinct [arg_padding_token a, arg_bos_token a, arg_eos_token a, arg_unk_token a]"
    and "\<forall>t\<in>set [arg_padding_token a, arg_bos_token a, arg_eos_token a, arg_unk_token a].
           t \<notin> fst ` set (freqs v)"
    by (simp_all add: clean_inputs_def keys)
  from build_itos_distinct [OF Vocab_init_freqs_distinct [OF assms(1)] this]
  have "distinct (map snd (itos v))"
    by (simp only: Vocab_init_plain(1) [OF assms(1) None] map_snd_enumerate_int)
  from reversed_dict_complete [OF this assms(3)] show ?thesis
    using Vocab_init_plain(2) [OF assms(1) None] by simp
next
  case (Some enc)
  from assms(2) Some have "distinct (map fst (stoi v))"
    by (simp add: clean_inputs_def Vocab_init_pretrained(1) [OF assms(1) Some])
  moreover have "map_of (dict_of (map (\<lambda>(tok, i). (i, tok)) (stoi v))) i = Some t"
    using assms(3) Vocab_init_pretrained(2) [OF assms(1) Some] by simp
  ultimately show ?thesis by (rule reversed_dict_sound)
qed

text \<open>
  Claim C1 (as amended). The claim: for every constructed vocabulary, whatever the
  annotation files and the names of the special tokens, \<^verbatim>\<open>stoi[itos[i]] == i\<close> for every
  index of \<^verbatim>\<open>itos\<close> and \<^verbatim>\<open>itos[stoi[t]] == t\<close> for every token of \<^verbatim>\<open>stoi\<close>. The code:
  \<^verbatim>\<open>stoi\<close> is the reversed dictionary of \<^verbatim>\<open>itos\<close>, in which a token listed twice keeps
  its last index only; with \<^verbatim>\<open>bos_token = eos_token = "<s>"\<close> the token at index 1 is
  mapped back to index 2. What holds: when the four special tokens are pairwise distinct
  and none of them is a token of a caption (or, with a pretrained tokenizer, when its
  dictionary gives distinct indices to distinct tokens), the two mappings are exact
  inverses of each other.
\<close>

theorem stoi_itos_inverse:
  assumes "Vocab_init a = Inr v" and "clean_inputs a"
  shows "map_of (itos v) i = Some t \<longleftrightarrow> map_of (stoi v) t = Some i"
  using stoi_of_itos [OF assms] itos_of_stoi [OF assms(1) clean_inputs_encoder_ok [OF assms(2)]]
  by blast

theorem stoi_itos_inverse_counterexample:
  "Vocab_init args_same = Inr vocab_same \<and>
   map_of (itos vocab_same) 1 = Some ''<s>'' \<and> map_of (stoi vocab_same) ''<s>'' = Some 2"
  by (simp add: Vocab_init_args_same) (simp add: vocab_same_def)

theorem stoi_itos_inverse_witness:
  "Vocab_init args_dogs = Inr vocab_dogs \<and> clean_inputs args_dogs \<and>
   map_of (itos vocab_dogs) 5 = Some ''runs'' \<and> map_of (stoi vocab_dogs) ''runs'' = Some 5 \<and>
   Vocab_init args_pretrained = Inr vocab_pretrained \<and> clean_inputs args_pretrained \<and>
   map_of (itos vocab_pretrained) 200 = Some ''dog'' \<and>
   map_of (stoi vocab_pretrained) ''dog'' = Some 200"
proof -
  have c: "clean_inputs args_dogs" by code_simp
  have i: "map_of (itos vocab_dogs) 5 = Some ''runs''" by (simp add: vocab_dogs_def)
  from stoi_itos_inverse [OF Vocab_init_args_dogs c, of 5 "''runs''"] i
  have s: "map_of (stoi vocab_dogs) ''runs'' = Some 5" by simp
  have c': "clean_inputs args_pretrained" by code_simp
  have i': "map_of (itos vocab_pretrained) 200 = Some ''dog''"
    by (simp add: vocab_pretrained_def)
  from stoi_itos_inverse [OF Vocab_init_args_pretrained c', of 200 "''dog''"] i'
  have s': "map_of (stoi vocab_pretrained) ''dog'' = Some 200" by simp
  from Vocab_init_args_dogs c i s Vocab_init_args_pretrained c' i' s' show ?thesis by blast
qed

lemma special_indices:
  assumes "Vocab_init a = Inr v"
  shows "stoi_or_unk v (bos_token v) = bos_idx v" and "stoi_or_unk v (eos_token v) = eos_idx v"
  by (simp_all add: stoi_or_unk_def Vocab_init_Inr(6,7) [OF assms])

text \<open>
  Claim C2 (as amended). The claim: for every token list \<open>T\<close> the encoding has
  \<^verbatim>\<open>max_caption_length\<close> entries: the index of bos, the indices of the tokens of \<open>T\<close>
  in order (the index of unk for a token missing from \<^verbatim>\<open>stoi\<close>), the index of eos,
  then the padding index. The code: this is so exactly when \<open>T\<close> leaves room for bos and
  eos, that is when \<open>length T + 2 \<le> max_caption_length\<close>; a longer list raises
  \<^verbatim>\<open>IndexError\<close>.
\<close>

theorem encode_caption_layout:
  assumes "Vocab_init a = Inr v" and "length T + 2 \<le> max_caption_length v"
  shows "encode_caption v T =
           Inr (bos_idx v # map (stoi_or_unk v) T @ eos_idx v #
                replicate (max_caption_length v - (length T + 2)) (padding_idx v))"
  using assms(2) by (simp add: encode_caption_eq special_indices [OF assms(1)])

theorem encode_caption_layout_counterexample:
  "Vocab_init args_dogs = Inr vocab_dogs \<and>
   encode_caption vocab_dogs [''a'', ''dog'', ''runs'', ''fast''] = Inl IndexError"
  by (simp add: Vocab_init_args_dogs) code_simp

theorem encode_caption_layout_witness:
  "Vocab_init args_dogs = Inr vocab_dogs \<and>
   length [''a'', ''cat''] + 2 \<le> max_caption_length vocab_dogs \<and>
   encode_caption vocab_dogs [''a'', ''cat''] = Inr [1, 4, 6, 2, 0]"
proof -
  have l: "length [''a'', ''cat''] + 2 \<le> max_caption_length vocab_dogs"
    by (simp add: vocab_dogs_def)
  have "bos_idx vocab_dogs # map (stoi_or_unk vocab_dogs) [''a'', ''cat''] @ eos_idx vocab_dogs #
        replicate (max_caption_length vocab_dogs - (length [''a'', ''cat''] + 2))
          (padding_idx vocab_dogs) = [1, 4, 6, 2, 0]"
    by code_simp
  with encode_caption_layout [OF Vocab_init_args_dogs l] Vocab_init_args_dogs l
  show ?thesis by simp
qed

text \<open>
  Claim C4 (as amended). The claim: \<^verbatim>\<open>encode\<close> raises no exception for any token list, and
  fails silently when \<open>length T + 2\<close> exceeds \<^verbatim>\<open>max_caption_length\<close>. The code: the loop
  assigns past the end of the tensor, which raises \<^verbatim>\<open>IndexError\<close>. What holds, for every
  vocabulary object: when \<open>length T + 2 \<le> max_caption_length\<close> the call returns a vector
  of \<^verbatim>\<open>max_caption_length\<close> entries and raises nothing; otherwise it raises
  \<^verbatim>\<open>IndexError\<close>.
\<close>

theorem encode_caption_raises_iff:
  "(length T + 2 \<le> max_caption_length v \<longrightarrow>
      (\<exists>vec. encode_caption v T = Inr vec \<and> length vec = max_caption_length v)) \<and>
   (max_caption_length v < length T + 2 \<longrightarrow> encode_caption v T = Inl IndexError)"
  by (auto simp: encode_caption_eq)

theorem encode_caption_raises_counterexample:
  "Vocab_init args_whole = Inr vocab_whole \<and>
   encode_caption vocab_whole [''a b'', ''a b''] = Inl IndexError"
  by (simp add: Vocab_init_args_whole) code_simp

theorem encode_caption_raises_iff_witness:
  "length [''a'', ''cat''] + 2 \<le> max_caption_length vocab_dogs \<and>
   (\<exists>vec. encode_caption vocab_dogs [''a'', ''cat''] = Inr vec \<and>
      length vec = max_caption_length vocab_dogs) \<and>
   max_caption_length vocab_dogs < length [''a'', ''dog'', ''runs'', ''fast''] + 2 \<and>
   encode_caption vocab_dogs [''a'', ''dog'', ''runs'', ''fast''] = Inl IndexError"
proof -
  have l: "length [''a'', ''cat''] + 2 \<le> max_caption_length vocab_dogs"
    by (simp add: vocab_dogs_def)
  have g: "max_caption_length vocab_dogs < length [''a'', ''dog'', ''runs'', ''fast''] + 2"
    by (simp add: vocab_dogs_def)
  from encode_caption_raises_iff [of "[''a'', ''cat'']" vocab_dogs] l
  have 1: "\<exists>vec. encode_caption vocab_dogs [''a'', ''cat''] = Inr vec \<and>
      length vec = max_caption_length vocab_dogs" by blast
  from encode_caption_raises_iff [of "[''a'', ''dog'', ''runs'', ''fast'']" vocab_dogs] g
  have 2: "encode_caption vocab_dogs [''a'', ''dog'', ''runs'', ''fast''] = Inl IndexError"
    by blast
  from l g 1 2 show ?thesis by blast
qed







text \<open>
  Claim C3 (as amended). The claim: for every list \<open>T\<close> of tokens that are in the
  vocabulary and not special, with \<open>length T + 2 \<le> max_caption_length\<close>, decoding the
  encoding of \<open>T\<close> as a token list gives \<open>T\<close> back. The code: when the tokens of bos and
  eos are the same, the walk of the decoder stops at position 0 and gives the empty
  list; and the decoder joins the words with spaces and splits the result at white
  space, so a token that is empty or holds white space does not come back whole. What
  holds: the round trip gives \<open>T\<close> back when, in addition, the bos token differs from
  the eos token and every token of \<open>T\<close> is non-empty and free of white space (and, with a
  pretrained tokenizer, its dictionary gives distinct indices to distinct tokens).
\<close>

theorem encode_decode_round_trip:
  assumes "Vocab_init a = Inr v" and "encoder_ok a"
    and "bos_token v \<noteq> eos_token v"
    and "\<forall>t\<in>set T. t \<in> fst ` set (stoi v) \<and> t \<notin> set (specials v) \<and> plain_token t"
    and "length T + 2 \<le> max_caption_length v"
  shows "\<exists>vec. encode_caption v T = Inr vec \<and> decode_caption v [vec] False = Inr [Tokens T]"
proof -
  let ?it = "\<lambda>i. the (map_of (itos v) i)"
  let ?pre = "bos_idx v # map (stoi_or_unk v) T"
  let ?rest = "replicate (max_caption_length v - (length T + 2)) (padding_idx v)"
  note inv = itos_of_stoi [OF assms(1,2)]
  have sp: "specials v = [padding_token v, bos_token v, eos_token v, unk_token v]"
    by (rule Vocab_init_Inr(4) [OF assms(1)])
  have bos: "map_of (itos v) (bos_idx v) = Some (bos_token v)"
    by (rule inv [OF Vocab_init_Inr(6) [OF assms(1)]])
  have eos: "map_of (itos v) (eos_idx v) = Some (eos_token v)"
    by (rule inv [OF Vocab_init_Inr(7) [OF assms(1)]])
  have tok: "map_of (itos v) (stoi_or_unk v t) = Some t" if "t \<in> set T" for t
  proof -
    from that assms(4) obtain i where i: "map_of (stoi v) t = Some i"
      by (metis map_of_eq_None_iff not_Some_eq)
    then have "stoi_or_unk v t = i" by (simp add: stoi_or_unk_def)
    with inv [OF i] show ?thesis by simp
  qed
  have enc: "encode_caption v T = Inr (?pre @ eos_idx v # ?rest)"
    using assms(5) by (simp add: encode_caption_eq special_indices [OF assms(1)])
  have no_eos: "eos_idx v \<notin> set ?pre"
  proof
    assume "eos_idx v \<in> set ?pre"
    then consider "eos_idx v = bos_idx v" | t where "t \<in> set T" "eos_idx v = stoi_or_unk v t"
      by auto
    then show False
    proof cases
      case 1
      with bos eos assms(3) show False by simp
    next
      case 2
      with tok [of t] eos have "t = eos_token v" by simp
      with 2(1) assms(4) sp show False by auto
    qed
  qed
  have in_keys: "i \<in> fst ` set (itos v)" if "map_of (itos v) i = Some t" for i t
    using map_of_SomeD [OF that] by (rule rev_image_eqI) simp
  have keys: "set ?pre \<subseteq> fst ` set (itos v)"
    using in_keys [OF bos] in_keys [OF tok] by auto
  have "map ?it (map (stoi_or_unk v) T) = T"
    using tok by (simp add: map_idI)
  moreover have "filter (\<lambda>t. t \<notin> set (specials v)) T = T"
    using assms(4) by (simp add: filter_id_conv)
  ultimately have "filter (\<lambda>t. t \<notin> set (specials v)) (map ?it ?pre) = T"
    using bos by (simp add: sp)
  with decode_row_until_eos [OF no_eos keys eos, of ?rest "[]"]
  have "decode_row v (?pre @ eos_idx v # ?rest) [] = Inr T"
    by (simp add: sp)
  from decode_caption_single [OF this, of False] assms(4)
  have "decode_caption v [?pre @ eos_idx v # ?rest] False = Inr [Tokens T]"
    by (simp add: split_strip_join)
  with enc show ?thesis by simp
qed

theorem encode_decode_round_trip_counterexample:
  "Vocab_init args_same = Inr vocab_same \<and>
   encode_caption vocab_same [''a'', ''dog''] = Inr [2, 4, 5, 2] \<and>
   decode_caption vocab_same [[2, 4, 5, 2]] False = Inr [Tokens []] \<and>
   Vocab_init args_whole = Inr vocab_whole \<and>
   encode_caption vocab_whole [''a b''] = Inr [1, 4, 2] \<and>
   decode_caption vocab_whole [[1, 4, 2]] False = Inr [Tokens [''a'', ''b'']]"
proof -
  have "encode_caption vocab_same [''a'', ''dog''] = Inr [2, 4, 5, 2]" by code_simp
  moreover have "decode_caption vocab_same [[2, 4, 5, 2]] False = Inr [Tokens []]" by code_simp
  moreover have "encode_caption vocab_whole [''a b''] = Inr [1, 4, 2]" by code_simp
  moreover have "decode_caption vocab_whole [[1, 4, 2]] False = Inr [Tokens [''a'', ''b'']]"
    by code_simp
  ultimately show ?thesis by (simp add: Vocab_init_args_same Vocab_init_args_whole)
qed

theorem encode_decode_round_trip_witness:
  "Vocab_init args_dogs = Inr vocab_dogs \<and> encoder_ok args_dogs \<and>
   bos_token vocab_dogs \<noteq> eos_token vocab_dogs \<and>
   ''a'' \<in> fst ` set (stoi vocab_dogs) \<and> ''a'' \<notin> set (specials vocab_dogs) \<and>
   plain_token ''a'' \<and>
   ''cat'' \<in> fst ` set (stoi vocab_dogs) \<and> ''cat'' \<notin> set (specials vocab_dogs) \<and>
   plain_token ''cat'' \<and>
   length [''a'', ''cat''] + 2 \<le> max_caption_length vocab_dogs \<and>
   encode_caption vocab_dogs [''a'', ''cat''] = Inr [1, 4, 6, 2, 0] \<and>
   decode_caption vocab_dogs [[1, 4, 6, 2, 0]] False = Inr [Tokens [''a'', ''cat'']]"
proof -
  have e: "encoder_ok args_dogs" by code_simp
  have b: "bos_token vocab_dogs \<noteq> eos_token vocab_dogs" by (simp add: vocab_dogs_def)
  have p: "plain_token ''a''" "plain_token ''cat''" by code_simp+
  have k: "''a'' \<in> fst ` set (stoi vocab_dogs)" "''a'' \<notin> set (specials vocab_dogs)"
    "''cat'' \<in> fst ` set (stoi vocab_dogs)" "''cat'' \<notin> set (specials vocab_dogs)"
    by (simp_all add: vocab_dogs_def)
  have t: "\<forall>t\<in>set [''a'', ''cat''].
      t \<in> fst ` set (stoi vocab_dogs) \<and> t \<notin> set (specials vocab_dogs) \<and> plain_token t"
    using p k by simp
  have l: "length [''a'', ''cat''] + 2 \<le> max_caption_length vocab_dogs"
    by (simp add: vocab_dogs_def)
  have enc: "encode_caption vocab_dogs [''a'', ''cat''] = Inr [1, 4, 6, 2, 0]" by code_simp
  from encode_decode_round_trip [OF Vocab_init_args_dogs e b t l] enc
  have "decode_caption vocab_dogs [[1, 4, 6, 2, 0]] False = Inr [Tokens [''a'', ''cat'']]"
    by simp
  with Vocab_init_args_dogs e b p k l enc show ?thesis by blast
qed

subsection \<open>The size cap\<close>

text \<open>
  Claim C7 (the code departs from it). The claim: whenever a maximum size is given,
  construction completes and the index-to-token mapping has at most that many entries.
  The code: line 45 reads \<^verbatim>\<open>self.itos\<close> before anything has assigned it, so with any
  maximum size at all, whatever the other arguments, the constructor raises
  \<^verbatim>\<open>AttributeError\<close> and no vocabulary is built.
\<close>

theorem Vocab_init_max_size_raises:
  "Vocab_init (a\<lparr>max_size := Some m\<rparr>) = Inl AttributeError"
  by (simp add: Vocab_init_def cap_max_size_def)

subsection \<open>\<^verbatim>\<open>extend\<close>\<close>

lemma extend_loop_ints:
  "extend_loop self (map PyInt ks) = (if ks = [] then Inr self else Inl AttributeError)"
  by (cases ks) simp_all

lemma sort_key_Nil_iff: "sort_key f xs = [] \<longleftrightarrow> xs = []"
  by (metis length_sort length_0_conv)

text \<open>
  Claim C8 (the code departs from it). The claim: \<^verbatim>\<open>extend\<close> appends the tokens of the
  other vocabulary that are missing, keeps the old indices, and changes nothing when no
  token is missing. The code: the loop runs over the integer keys of the other
  vocabulary's \<^verbatim>\<open>itos\<close>, none of which is a key of \<^verbatim>\<open>stoi\<close>, and calls
  \<^verbatim>\<open>append\<close> on a dictionary; so \<^verbatim>\<open>extend\<close> raises \<^verbatim>\<open>AttributeError\<close> unless the
  other vocabulary is empty, also when every token is already present.
\<close>

theorem extend_raises:
  "extend self v srt = (if itos v = [] then Inr self else Inl AttributeError)"
  unfolding extend_def extend_loop_ints by (simp add: sort_key_Nil_iff)

theorem extend_raises_witness:
  "extend vocab_dogs vocab_dogs False = Inl AttributeError"
  using extend_raises [of vocab_dogs vocab_dogs False] by (simp add: vocab_dogs_def)

end
